theory Spec2Isabelle
  imports Main "HOL-Library.Word"
begin

unbundle bit_operations_syntax

section \<open>Partition table records (qemu-nbd.c, lines 86-112)\<close>

text \<open>
  \<^verbatim>\<open>struct partition_record\<close>: the field widths are those of the C declaration.
  Note that \<^verbatim>\<open>start_cylinder\<close> is a \<^verbatim>\<open>uint32_t\<close> while \<^verbatim>\<open>end_cylinder\<close>
  is a \<^verbatim>\<open>uint8_t\<close>.
\<close>

record partition_record =
  bootable :: "8 word"
  start_head :: "8 word"
  start_cylinder :: "32 word"
  start_sector :: "8 word"
  system :: "8 word"
  end_head :: "8 word"
  end_cylinder :: "8 word"
  end_sector :: "8 word"
  start_sector_abs :: "32 word"
  nb_sectors_abs :: "32 word"

text \<open>
  \<^verbatim>\<open>read_partition(uint8_t *p, struct partition_record *r)\<close>. The argument is the
  byte sequence that starts at \<^verbatim>\<open>p\<close>. Every \<^verbatim>\<open>p[k]\<close> is promoted to a 32-bit
  \<^verbatim>\<open>int\<close> before the shifts and masks, so the right-hand sides are computed on
  32-bit words and then converted to the width of the field they are stored in
  (\<^verbatim>\<open>p[11] << 24\<close> may reach the sign bit of the \<^verbatim>\<open>int\<close>; the 32 bits stored in
  the \<^verbatim>\<open>uint32_t\<close> field are the same).
\<close>

definition read_partition :: "8 word list \<Rightarrow> partition_record" where
  "read_partition p =
     \<lparr> bootable = p ! 0,
       start_head = p ! 1,
       start_cylinder =
         (ucast (p ! 3) :: 32 word) OR (push_bit 2 (ucast (p ! 2) :: 32 word) AND 0x0300),
       start_sector = p ! 2 AND 0x3f,
       system = p ! 4,
       end_head = p ! 5,
       end_cylinder =
         ucast ((ucast (p ! 7) :: 32 word) OR (push_bit 2 (ucast (p ! 6) :: 32 word) AND 0x300)),
       end_sector = p ! 6 AND 0x3f,
       start_sector_abs =
         (ucast (p ! 8) :: 32 word) OR push_bit 8 (ucast (p ! 9)) OR
         push_bit 16 (ucast (p ! 10)) OR push_bit 24 (ucast (p ! 11)),
       nb_sectors_abs =
         (ucast (p ! 12) :: 32 word) OR push_bit 8 (ucast (p ! 13)) OR
         push_bit 16 (ucast (p ! 14)) OR push_bit 24 (ucast (p ! 15)) \<rparr>"

section \<open>The partition locator (qemu-nbd.c, lines 114-168)\<close>

text \<open>
  The block layer is not part of \<^verbatim>\<open>qemu-nbd.c\<close>: \<^verbatim>\<open>bdrv_read(bs, n, buf, 1)\<close> is
  taken as a parameter, a partial map from sector numbers to the 512 bytes of the
  sector, where \<open>None\<close> stands for a negative return value.

  The loop indices \<^verbatim>\<open>i\<close> and \<^verbatim>\<open>j\<close> run from 0 to 4 and are natural numbers here.
  The argument \<^verbatim>\<open>partition\<close> (written \<open>partno\<close>, as \<open>partition\<close> is a function on
  lists) and the counter \<^verbatim>\<open>ext_partnum\<close> are C \<^verbatim>\<open>int\<close>s that are only compared and,
  for the counter, raised from 4 to at most 20: they are integers here.

  \<^verbatim>\<open>find_partition\<close> has three ways out besides success: a failed read calls
  \<^verbatim>\<open>err(EXIT_FAILURE, ...)\<close>, which ends the process (\<open>ReadFailure\<close>); a bad boot
  signature returns \<^verbatim>\<open>-EINVAL\<close>; a partition number that no slot carries returns
  \<^verbatim>\<open>-ENOENT\<close>.
\<close>

type_synonym sector = "8 word list"
type_synonym block_device = "nat \<Rightarrow> sector option"

datatype error = ReadFailure | EINVAL | ENOENT

text \<open>
  The pair \<^verbatim>\<open>(*offset, *size)\<close>: the \<^verbatim>\<open>uint32_t\<close> field is cast to
  \<^verbatim>\<open>uint64_t\<close>, shifted left by 9 and stored in an \<^verbatim>\<open>off_t\<close> (64 bits wide in
  every QEMU build).
\<close>

definition extent :: "partition_record \<Rightarrow> 64 word \<times> 64 word" where
  "extent r =
     (push_bit 9 (ucast (start_sector_abs r) :: 64 word),
      push_bit 9 (ucast (nb_sectors_abs r) :: 64 word))"

text \<open>
  The inner loop, \<^verbatim>\<open>for (j = 0; j < 4; j++)\<close>, over the four slots of the sector
  \<^verbatim>\<open>data1\<close> that an extended container points to. \<open>None\<close>: the loop ran to its end
  without returning.
\<close>

function ext_loop :: "sector \<Rightarrow> int \<Rightarrow> int \<Rightarrow> nat \<Rightarrow> (64 word \<times> 64 word) option" where
  "ext_loop data1 ext_partnum partno j =
     (if j < 4 then
        (let r = read_partition (drop (446 + 16 * j) data1) in
         if nb_sectors_abs r = 0 then ext_loop data1 ext_partnum partno (j + 1)
         else if ext_partnum + int j + 1 = partno then Some (extent r)
         else ext_loop data1 ext_partnum partno (j + 1))
      else None)"
  by pat_completeness auto
termination
  by (relation "measure (\<lambda>(data1, ext_partnum, partno, j). 4 - j)") auto

text \<open>
  The outer loop, \<^verbatim>\<open>for (i = 0; i < 4; i++)\<close>, over the four primary slots of
  sector 0, with the running counter \<^verbatim>\<open>ext_partnum\<close>.
\<close>

function mbr_loop ::
  "block_device \<Rightarrow> sector \<Rightarrow> int \<Rightarrow> int \<Rightarrow> nat \<Rightarrow> error + (64 word \<times> 64 word)" where
  "mbr_loop bs data partno ext_partnum i =
     (if i < 4 then
        (let r = read_partition (drop (446 + 16 * i) data) in
         if nb_sectors_abs r = 0 then mbr_loop bs data partno ext_partnum (i + 1)
         else if system r = 0xF \<or> system r = 0x5 then
           (case bs (unat (start_sector_abs r)) of
              None \<Rightarrow> Inl ReadFailure
            | Some data1 \<Rightarrow>
                (case ext_loop data1 ext_partnum partno 0 of
                   Some res \<Rightarrow> Inr res
                 | None \<Rightarrow> mbr_loop bs data partno (ext_partnum + 4) (i + 1)))
         else if int i + 1 = partno then Inr (extent r)
         else mbr_loop bs data partno ext_partnum (i + 1))
      else Inl ENOENT)"
  by pat_completeness auto
termination
  by (relation "measure (\<lambda>(bs, data, partno, ext_partnum, i). 4 - i)") auto

definition find_partition :: "block_device \<Rightarrow> int \<Rightarrow> error + (64 word \<times> 64 word)" where
  "find_partition bs partno =
     (case bs 0 of
        None \<Rightarrow> Inl ReadFailure
      | Some data \<Rightarrow>
          if data ! 510 \<noteq> 0x55 \<or> data ! 511 \<noteq> 0xaa then Inl EINVAL
          else mbr_loop bs data partno 4 0)"

section \<open>Admission gate, acceptor and control loop (qemu-nbd.c, lines 38-45, 170-174, 250-272, 635-637)\<close>

text \<open>
  The process-wide variables the handlers share: \<^verbatim>\<open>sigterm_reported\<close>,
  \<^verbatim>\<open>nbd_started\<close>, \<^verbatim>\<open>shared\<close> (the client limit, 1 by default) and
  \<^verbatim>\<open>nb_fds\<close> (the active clients). The two counters are C \<^verbatim>\<open>int\<close>s: 32-bit
  words, read with \<open>sint\<close> wherever the code compares them.
\<close>

record server_state =
  sigterm_reported :: bool
  nbd_started :: bool
  shared :: "32 word"
  nb_fds :: "32 word"

text \<open>\<^verbatim>\<open>termsig_handler\<close>: sets the flag (and wakes the main loop, which has no state here).\<close>

definition termsig_handler :: "server_state \<Rightarrow> server_state" where
  "termsig_handler s = s\<lparr>sigterm_reported := True\<rparr>"

text \<open>\<^verbatim>\<open>nbd_can_accept\<close>: \<^verbatim>\<open>return nb_fds < shared;\<close>, a signed comparison.\<close>

definition nbd_can_accept :: "server_state \<Rightarrow> bool" where
  "nbd_can_accept s = (sint (nb_fds s) < sint (shared s))"

text \<open>\<^verbatim>\<open>nbd_client_closed\<close>: \<^verbatim>\<open>nb_fds--;\<close> and nothing else that touches the state.\<close>

definition nbd_client_closed :: "server_state \<Rightarrow> server_state" where
  "nbd_client_closed s = s\<lparr>nb_fds := nb_fds s - 1\<rparr>"

text \<open>
  \<^verbatim>\<open>nbd_accept\<close>. The two calls into code outside this file are parameters: \<open>fd\<close> is
  what \<^verbatim>\<open>accept()\<close> returned (negative on failure), and \<open>nbd_client_new fd\<close> says
  whether \<^verbatim>\<open>nbd_client_new(exp, fd, nbd_client_closed)\<close> returned a client. The
  assignment \<^verbatim>\<open>nbd_started = true\<close> stands between the \<^verbatim>\<open>accept()\<close> call and the
  test of its result; \<^verbatim>\<open>&&\<close> calls \<^verbatim>\<open>nbd_client_new\<close> only for \<^verbatim>\<open>fd >= 0\<close>.
\<close>

definition nbd_accept :: "(32 word \<Rightarrow> bool) \<Rightarrow> 32 word \<Rightarrow> server_state \<Rightarrow> server_state" where
  "nbd_accept nbd_client_new fd s =
     (let s1 = s\<lparr>nbd_started := True\<rparr> in
      if 0 \<le> sint fd \<and> nbd_client_new fd then s1\<lparr>nb_fds := nb_fds s1 + 1\<rparr> else s1)"

text \<open>
  The condition of the \<^verbatim>\<open>do ... while\<close> loop of \<^verbatim>\<open>main\<close>:
  \<^verbatim>\<open>!sigterm_reported && (persistent || !nbd_started || nb_fds > 0)\<close>.
  \<^verbatim>\<open>persistent\<close> is a local \<^verbatim>\<open>int\<close> of \<^verbatim>\<open>main\<close> that the loop never
  writes, so it is an argument here.
\<close>

definition loop_cond :: "32 word \<Rightarrow> server_state \<Rightarrow> bool" where
  "loop_cond persistent s =
     (\<not> sigterm_reported s \<and> (persistent \<noteq> 0 \<or> \<not> nbd_started s \<or> 0 < sint (nb_fds s)))"

text \<open>
  The loop itself: \<^verbatim>\<open>do { main_loop_wait(false); } while (...)\<close>. What one call of
  \<^verbatim>\<open>main_loop_wait\<close> does to the state (which handlers it runs) is decided outside
  this file, so it is a parameter, indexed by the number of the iteration. The loop
  need not end: \<open>None\<close> is a run that waits forever.
\<close>

partial_function (option) main_loop ::
  "(nat \<Rightarrow> server_state \<Rightarrow> server_state) \<Rightarrow> 32 word \<Rightarrow> nat \<Rightarrow> server_state \<Rightarrow>
     server_state option" where
  "main_loop main_loop_wait persistent n s =
     (let s' = main_loop_wait n s in
      if loop_cond persistent s' then main_loop main_loop_wait persistent (Suc n) s'
      else Some s')"

section \<open>Notions of the specification\<close>

text \<open>
  The words the specification uses for the partition table, written once so that the
  theorems can be read against it. \<open>slot_at data k\<close> is the decoded slot of a sector at
  index \<open>k\<close>, counted from 0 as the loops do (offsets 446, 462, 478, 494): the
  specification's slot \<open>k + 1\<close>.
\<close>

definition slot_at :: "sector \<Rightarrow> nat \<Rightarrow> partition_record" where
  "slot_at data k = read_partition (drop (446 + 16 * k) data)"

definition is_container :: "partition_record \<Rightarrow> bool" where
  "is_container r = (system r = 0xF \<or> system r = 0x5)"

text \<open>A primary slot whose container the locator visits: not empty, and of type 0x5 or 0xF.\<close>

definition visited_container :: "sector \<Rightarrow> nat \<Rightarrow> bool" where
  "visited_container data i =
     (nb_sectors_abs (slot_at data i) \<noteq> 0 \<and> is_container (slot_at data i))"

definition containers_before :: "sector \<Rightarrow> nat \<Rightarrow> nat" where
  "containers_before data i = length (filter (visited_container data) [0..<i])"

text \<open>
  The number of sub-slot \<open>j\<close> of the container in primary slot \<open>i\<close>: the counter
  starts at 4 and has advanced by 4 for every container visited before slot \<open>i\<close>.
\<close>

definition logical_number :: "sector \<Rightarrow> nat \<Rightarrow> nat \<Rightarrow> int" where
  "logical_number data i j = 4 + 4 * int (containers_before data i) + int j + 1"

text \<open>
  ``A slot matches the partition number'': a non-empty primary slot that is no
  container and has the number as its position, or a non-empty sub-slot of a visited
  container that carries the number.
\<close>

definition slot_matches :: "block_device \<Rightarrow> sector \<Rightarrow> int \<Rightarrow> bool" where
  "slot_matches bs data partno =
     (\<exists>i\<in>{0..<4}.
        nb_sectors_abs (slot_at data i) \<noteq> 0 \<and>
        (if is_container (slot_at data i) then
           (case bs (unat (start_sector_abs (slot_at data i))) of
              None \<Rightarrow> False
            | Some data1 \<Rightarrow>
                (\<exists>j\<in>{0..<4}. nb_sectors_abs (slot_at data1 j) \<noteq> 0 \<and>
                   logical_number data i j = partno))
         else int i + 1 = partno))"

text \<open>A run of accept events with no close in between, one descriptor per event.\<close>

definition accept_all :: "(32 word \<Rightarrow> bool) \<Rightarrow> 32 word list \<Rightarrow> server_state \<Rightarrow> server_state" where
  "accept_all nbd_client_new fds s = fold (nbd_accept nbd_client_new) fds s"

text \<open>The state the condition of the main loop is tested on in iteration \<open>n + k\<close>.\<close>

fun state_after ::
  "(nat \<Rightarrow> server_state \<Rightarrow> server_state) \<Rightarrow> nat \<Rightarrow> server_state \<Rightarrow> nat \<Rightarrow> server_state" where
  "state_after w n s 0 = w n s"
| "state_after w n s (Suc k) = w (n + Suc k) (state_after w n s k)"

section \<open>Example images and states\<close>

text \<open>
  A slot with the given type, start and count (each four bytes, little endian) and
  zero CHS fields; a sector made of a zero boot area, four slots and the signature.
\<close>

definition table_slot :: "8 word \<Rightarrow> 8 word list \<Rightarrow> 8 word list \<Rightarrow> 8 word list" where
  "table_slot sys lba cnt = [0, 0, 0, 0, sys, 0, 0, 0] @ lba @ cnt"

definition empty_slot :: "8 word list" where
  "empty_slot = replicate 16 0"

definition boot_sector ::
  "8 word list \<Rightarrow> 8 word list \<Rightarrow> 8 word list \<Rightarrow> 8 word list \<Rightarrow> sector" where
  "boot_sector s0 s1 s2 s3 = replicate 446 0 @ s0 @ s1 @ s2 @ s3 @ [0x55, 0xaa]"

text \<open>The sample of the specification: slot 1 of type 0x83, start 2048, 204800 sectors.\<close>

definition sample_mbr :: sector where
  "sample_mbr =
     boot_sector (table_slot 0x83 [0, 8, 0, 0] [0, 0x20, 3, 0]) empty_slot empty_slot empty_slot"

definition sample_image :: block_device where
  "sample_image = map_of [(0, sample_mbr)]"

text \<open>
  A sector 0 whose last byte is not 0xAA. Its slot 1 is a container at sector 100,
  which cannot be read.
\<close>

definition no_signature_sector :: sector where
  "no_signature_sector =
     replicate 446 0 @ table_slot 0x05 [100, 0, 0, 0] [10, 0, 0, 0] @ empty_slot @ empty_slot @
     empty_slot @ [0x55, 0]"

definition no_signature_image :: block_device where
  "no_signature_image = map_of [(0, no_signature_sector)]"

text \<open>
  An image cut off after its first sector: slot 1 is a container at sector 100, which
  cannot be read; slot 2 is the partition of the sample.
\<close>

definition truncated_mbr :: sector where
  "truncated_mbr =
     boot_sector (table_slot 0x05 [100, 0, 0, 0] [10, 0, 0, 0])
       (table_slot 0x83 [0, 8, 0, 0] [0, 0x20, 3, 0]) empty_slot empty_slot"

definition truncated_image :: block_device where
  "truncated_image = map_of [(0, truncated_mbr)]"

text \<open>
  Two containers, in slots 1 and 3. The first one, at sector 100, has its sub-slot 1
  empty and its sub-slot 2 populated (start 110, 20 sectors); the second one, at
  sector 200, has its sub-slot 1 populated (start 210, 30 sectors).
\<close>

definition two_ext_mbr :: sector where
  "two_ext_mbr =
     boot_sector (table_slot 0x05 [100, 0, 0, 0] [50, 0, 0, 0])
       (table_slot 0x83 [0, 8, 0, 0] [0, 0x20, 3, 0])
       (table_slot 0x0F [200, 0, 0, 0] [50, 0, 0, 0]) empty_slot"

definition first_ebr :: sector where
  "first_ebr =
     boot_sector empty_slot (table_slot 0x83 [110, 0, 0, 0] [20, 0, 0, 0]) empty_slot empty_slot"

definition second_ebr :: sector where
  "second_ebr =
     boot_sector (table_slot 0x83 [210, 0, 0, 0] [30, 0, 0, 0]) empty_slot empty_slot empty_slot"

definition two_ext_image :: block_device where
  "two_ext_image = map_of [(0, two_ext_mbr), (100, first_ebr), (200, second_ebr)]"

text \<open>A slot whose start and count are both \<open>2^32 - 1\<close>.\<close>

definition large_mbr :: sector where
  "large_mbr =
     boot_sector (table_slot 0x83 [0xFF, 0xFF, 0xFF, 0xFF] [0xFF, 0xFF, 0xFF, 0xFF])
       empty_slot empty_slot empty_slot"

definition large_image :: block_device where
  "large_image = map_of [(0, large_mbr)]"

text \<open>A slot of sixteen bytes 0xFF.\<close>

definition all_ones_slot :: "8 word list" where
  "all_ones_slot = replicate 16 0xFF"

text \<open>The state \<^verbatim>\<open>main\<close> starts the loop in, for a limit of \<open>n\<close> clients.\<close>

definition initial_state :: "32 word \<Rightarrow> server_state" where
  "initial_state n = \<lparr>sigterm_reported = False, nbd_started = False, shared = n, nb_fds = 0\<rparr>"

text \<open>
  Two scripts for \<^verbatim>\<open>main_loop_wait\<close>: a client is accepted in iteration 0 and closes
  in iteration 1; and the same followed by the termination signal in iteration 2.
\<close>

definition one_client :: "nat \<Rightarrow> server_state \<Rightarrow> server_state" where
  "one_client n s =
     (if n = 0 then nbd_accept (\<lambda>fd. True) 5 s
      else if n = 1 then nbd_client_closed s
      else s)"

definition one_client_then_signal :: "nat \<Rightarrow> server_state \<Rightarrow> server_state" where
  "one_client_then_signal n s =
     (if n = 0 then nbd_accept (\<lambda>fd. True) 5 s
      else if n = 1 then nbd_client_closed s
      else termsig_handler s)"

lemmas image_defs =
  table_slot_def empty_slot_def boot_sector_def

lemmas table_defs =
  slot_at_def read_partition_def is_container_def visited_container_def extent_def nth_append

section \<open>Word arithmetic of the decoder\<close>

lemma ucast_ucast_byte:
  fixes a :: "8 word"
  shows "(ucast (ucast a :: 32 word) :: 8 word) = a"
  by (rule bit_word_eqI) (simp add: bit_simps)

lemma trunc_cyl:
  fixes a b :: "8 word"
  shows "(ucast ((ucast a :: 32 word) OR (push_bit 2 (ucast b :: 32 word) AND 0x300)) :: 8 word) = a"
proof -
  have z: "(0x300 :: 8 word) = 0" by simp
  have "(ucast ((ucast a :: 32 word) OR (push_bit 2 (ucast b :: 32 word) AND 0x300)) :: 8 word) =
        a OR (ucast (push_bit 2 (ucast b :: 32 word)) AND 0x300)"
    by (simp add: unsigned_or_eq unsigned_and_eq ucast_ucast_byte)
  also have "\<dots> = a" unfolding z by simp
  finally show ?thesis .
qed

lemma uint_ucast_byte:
  fixes a :: "8 word"
  shows "uint (ucast a :: 32 word) = uint a"
proof -
  have "uint a < 2 ^ 8" using unsigned_less [of a, where 'a = int] by simp
  then have "uint a < 2 ^ 32" by simp
  then show ?thesis by (simp add: unsigned_ucast_eq take_bit_int_eq_self)
qed

lemma cyl_range:
  fixes a b :: "8 word"
  shows "unat ((ucast a :: 32 word) OR (push_bit 2 (ucast b :: 32 word) AND 0x300)) \<le> 1023"
proof -
  let ?x = "(ucast a :: 32 word)" and ?y = "push_bit 2 (ucast b :: 32 word) AND 0x300"
  have "uint a < 2 ^ 8" using unsigned_less [of a, where 'a = int] by simp
  then have x: "uint ?x < 2 ^ 10" by (simp add: uint_ucast_byte)
  have "uint ?y \<le> 0x300" by (simp add: uint_and)
  then have y: "uint ?y < 2 ^ 10" by simp
  have "uint ?x OR uint ?y < 2 ^ 10"
    by (rule OR_upper [OF _ x y]) simp
  then have "uint (?x OR ?y) < 1024"
    by (simp only: uint_or) simp
  moreover have "uint (?x OR ?y) = int (unat (?x OR ?y))"
    by (rule uint_nat)
  ultimately show ?thesis by linarith
qed

lemma sec_range:
  fixes a :: "8 word"
  shows "unat (a AND 0x3f) \<le> 63"
proof -
  have "unat (a AND 0x3f) \<le> unat (0x3f :: 8 word)"
    by (rule word_and_le1 [THEN word_le_nat_alt [THEN iffD1]])
  then show ?thesis by simp
qed

lemma unat_shift9:
  fixes x :: "32 word"
  shows "unat (push_bit 9 (ucast x :: 64 word)) = unat x * 512"
proof -
  have "unat x < 2 ^ 32" using unsigned_less [of x] by simp
  then have "unat x * 512 < 2 ^ 64" by simp
  moreover have "unat (ucast x :: 64 word) = unat x"
    using \<open>unat x < 2 ^ 32\<close> by (simp add: unsigned_ucast_eq take_bit_nat_eq_self)
  ultimately show ?thesis
    by (simp add: push_bit_eq_mult unat_word_ariths)
qed

lemma uint_shift9:
  fixes x :: "32 word"
  shows "uint (push_bit 9 (ucast x :: 64 word)) = uint x * 512"
proof -
  have "uint (push_bit 9 (ucast x :: 64 word)) = int (unat (push_bit 9 (ucast x :: 64 word)))"
    by (rule uint_nat)
  also have "\<dots> = int (unat x * 512)" by (simp only: unat_shift9)
  also have "\<dots> = uint x * 512" by simp
  finally show ?thesis .
qed

lemma sint_shift9:
  fixes x :: "32 word"
  shows "sint (push_bit 9 (ucast x :: 64 word)) = uint x * 512"
proof -
  let ?w = "push_bit 9 (ucast x :: 64 word)"
  have "uint x < 2 ^ 32" using unsigned_less [of x, where 'a = int] by simp
  then have lt: "uint x * 512 < 2 ^ 63" by simp
  have "(0::int) \<le> uint x * 512" by simp
  moreover have "- (2 ^ 63) \<le> (0::int)" by simp
  ultimately have ge: "- (2 ^ 63) \<le> uint x * 512" by (rule order_trans [rotated])
  have "sint ?w = signed_take_bit 63 (uint ?w)"
    by (simp add: sint_uint)
  also have "\<dots> = signed_take_bit 63 (uint x * 512)" by (simp only: uint_shift9)
  also have "\<dots> = uint x * 512"
    by (rule signed_take_bit_int_eq_self [OF ge lt])
  finally show ?thesis .
qed

lemma extent_exact:
  "sint (fst (extent r)) = uint (start_sector_abs r) * 512"
  "sint (snd (extent r)) = uint (nb_sectors_abs r) * 512"
  by (simp_all add: extent_def sint_shift9)

lemma sint_dec:
  fixes x :: "32 word"
  assumes "- (2 ^ 31) < sint x"
  shows "sint (x - 1) = sint x - 1"
proof -
  have "sint x < 2 ^ 31" using sint_lt [of x] by simp
  with assms show ?thesis
    by (simp add: sint_word_ariths signed_take_bit_int_eq_self)
qed

lemma sint_inc:
  fixes x :: "32 word"
  assumes "sint x < 2 ^ 31 - 1"
  shows "sint (x + 1) = sint x + 1"
proof -
  have "- (2 ^ 31) \<le> sint x" using sint_ge [of x] by simp
  with assms show ?thesis
    by (simp add: sint_word_ariths signed_take_bit_int_eq_self)
qed

section \<open>The two loops of the locator\<close>

text \<open>
  The loops unfold one iteration at a time; the defining equations are taken out of the
  simplifier's rules, since they apply to their own right-hand sides.
\<close>

declare ext_loop.simps [simp del]
declare mbr_loop.simps [simp del]

lemma ext_loop_unfold:
  "ext_loop d e pn j =
     (if j < 4 then
        (if nb_sectors_abs (slot_at d j) = 0 then ext_loop d e pn (Suc j)
         else if e + int j + 1 = pn then Some (extent (slot_at d j))
         else ext_loop d e pn (Suc j))
      else None)"
  by (subst ext_loop.simps) (simp add: slot_at_def Let_def)

lemma mbr_loop_unfold:
  "mbr_loop bs data pn e i =
     (if i < 4 then
        (if nb_sectors_abs (slot_at data i) = 0 then mbr_loop bs data pn e (Suc i)
         else if is_container (slot_at data i) then
           (case bs (unat (start_sector_abs (slot_at data i))) of
              None \<Rightarrow> Inl ReadFailure
            | Some data1 \<Rightarrow>
                (case ext_loop data1 e pn 0 of
                   Some res \<Rightarrow> Inr res
                 | None \<Rightarrow> mbr_loop bs data pn (e + 4) (Suc i)))
         else if int i + 1 = pn then Inr (extent (slot_at data i))
         else mbr_loop bs data pn e (Suc i))
      else Inl ENOENT)"
  by (subst mbr_loop.simps) (simp add: slot_at_def Let_def is_container_def split: option.split)

lemma ext_loop_hit:
  assumes "j < 4" "j0 \<le> j" "nb_sectors_abs (slot_at d j) \<noteq> 0"
  shows "ext_loop d e (e + int j + 1) j0 = Some (extent (slot_at d j))"
  using assms
proof (induction "j - j0" arbitrary: j0)
  case 0
  then have "j0 = j" by simp
  with 0 show ?case by (subst ext_loop_unfold) simp
next
  case (Suc n)
  then have lt: "j0 < j" and n: "n = j - Suc j0" and le: "Suc j0 \<le> j" by simp_all
  have rec: "ext_loop d e (e + int j + 1) (Suc j0) = Some (extent (slot_at d j))"
    using Suc.hyps(1) [OF n] Suc.prems le by simp
  from lt Suc.prems(1) have "j0 < 4" by simp
  with lt rec show ?case by (subst ext_loop_unfold) simp
qed

lemma ext_loop_miss:
  assumes "\<And>k. j0 \<le> k \<Longrightarrow> k < 4 \<Longrightarrow> nb_sectors_abs (slot_at d k) = 0 \<or> e + int k + 1 \<noteq> pn"
  shows "ext_loop d e pn j0 = None"
  using assms
proof (induction "4 - j0" arbitrary: j0)
  case 0
  then show ?case by (subst ext_loop_unfold) simp
next
  case (Suc n)
  then have lt: "j0 < 4" and n: "n = 4 - Suc j0" by simp_all
  have rec: "ext_loop d e pn (Suc j0) = None"
    by (rule Suc.hyps(1) [OF n]) (simp add: Suc.prems)
  from Suc.prems [of j0] lt have "nb_sectors_abs (slot_at d j0) = 0 \<or> e + int j0 + 1 \<noteq> pn"
    by simp
  with lt rec show ?case by (subst ext_loop_unfold) auto
qed

lemma ext_loop_SomeD:
  assumes "ext_loop d e pn j0 = Some res"
  shows "\<exists>k. j0 \<le> k \<and> k < 4 \<and> nb_sectors_abs (slot_at d k) \<noteq> 0 \<and>
             pn = e + int k + 1 \<and> res = extent (slot_at d k)"
  using assms
proof (induction "4 - j0" arbitrary: j0)
  case 0
  then show ?case by (subst (asm) ext_loop_unfold) simp
next
  case (Suc n)
  then have lt: "j0 < 4" and n: "n = 4 - Suc j0" by simp_all
  show ?case
  proof (cases "nb_sectors_abs (slot_at d j0) \<noteq> 0 \<and> e + int j0 + 1 = pn")
    case True
    with Suc.prems lt have "res = extent (slot_at d j0)"
      by (subst (asm) ext_loop_unfold) auto
    with True lt show ?thesis by auto
  next
    case False
    with Suc.prems lt have "ext_loop d e pn (Suc j0) = Some res"
      by (subst (asm) ext_loop_unfold) (auto split: if_splits)
    from Suc.hyps(1) [OF n this] obtain k where
      "Suc j0 \<le> k" "k < 4" "nb_sectors_abs (slot_at d k) \<noteq> 0"
      "pn = e + int k + 1" "res = extent (slot_at d k)" by blast
    then show ?thesis by (intro exI [of _ k]) simp
  qed
qed

lemma containers_before_Suc:
  "containers_before data (Suc i) =
     containers_before data i + (if visited_container data i then 1 else 0)"
  by (simp add: containers_before_def)

lemma containers_before_0:
  "containers_before data 0 = 0"
  by (simp add: containers_before_def)

lemma containers_before_mono:
  "i \<le> k \<Longrightarrow> containers_before data i \<le> containers_before data k"
  by (induction k) (auto simp: containers_before_Suc le_Suc_eq)

lemma mbr_loop_primary:
  assumes "i < 4" "i0 \<le> i" "4 \<le> e"
    and "nb_sectors_abs (slot_at data i) \<noteq> 0" "\<not> is_container (slot_at data i)"
    and "\<And>k. i0 \<le> k \<Longrightarrow> k < i \<Longrightarrow> visited_container data k \<Longrightarrow>
           bs (unat (start_sector_abs (slot_at data k))) \<noteq> None"
  shows "mbr_loop bs data (int i + 1) e i0 = Inr (extent (slot_at data i))"
  using assms(2,3,6)
proof (induction "i - i0" arbitrary: i0 e)
  case 0
  then have "i0 = i" by simp
  with assms(1,4,5) show ?case by (subst mbr_loop_unfold) simp
next
  case (Suc n)
  then have lt: "i0 < i" and n: "n = i - Suc i0" and le: "Suc i0 \<le> i" by simp_all
  from lt assms(1) have i0: "i0 < 4" by simp
  have rec: "mbr_loop bs data (int i + 1) e' (Suc i0) = Inr (extent (slot_at data i))"
    if "4 \<le> e'" for e'
    by (rule Suc.hyps(1) [OF n le that]) (simp add: Suc.prems(3))
  have ne: "int i0 + 1 \<noteq> int i + 1" using lt by simp
  show ?case
  proof (cases "visited_container data i0")
    case True
    with Suc.prems(3) [of i0] lt obtain d1 where
      d1: "bs (unat (start_sector_abs (slot_at data i0))) = Some d1" by auto
    have "ext_loop d1 e (int i + 1) 0 = None"
      using assms(1) Suc.prems(2) by (intro ext_loop_miss) simp
    with True d1 i0 rec [of "e + 4"] Suc.prems(2) show ?thesis
      by (subst mbr_loop_unfold) (simp add: visited_container_def)
  next
    case False
    with i0 rec [OF Suc.prems(2)] ne show ?thesis
      by (subst mbr_loop_unfold) (auto simp: visited_container_def)
  qed
qed

lemma mbr_loop_logical:
  assumes "i < 4" "j < 4"
    and "visited_container data i"
    and "bs (unat (start_sector_abs (slot_at data i))) = Some d1"
    and "nb_sectors_abs (slot_at d1 j) \<noteq> 0"
    and "i0 \<le> i" "e = 4 + 4 * int (containers_before data i0)"
    and "\<And>k. i0 \<le> k \<Longrightarrow> k < i \<Longrightarrow> visited_container data k \<Longrightarrow>
           bs (unat (start_sector_abs (slot_at data k))) \<noteq> None"
  shows "mbr_loop bs data (logical_number data i j) e i0 = Inr (extent (slot_at d1 j))"
  using assms(6,7,8)
proof (induction "i - i0" arbitrary: i0 e)
  case 0
  then have "i0 = i" by simp
  moreover have "ext_loop d1 e (e + int j + 1) 0 = Some (extent (slot_at d1 j))"
    using assms(2,5) by (intro ext_loop_hit) simp_all
  ultimately show ?case
    using assms(1,3,4) 0(3)
    by (subst mbr_loop_unfold) (simp add: visited_container_def logical_number_def)
next
  case (Suc n)
  then have lt: "i0 < i" and n: "n = i - Suc i0" and le: "Suc i0 \<le> i" by simp_all
  from lt assms(1) have i0: "i0 < 4" by simp
  have rec: "mbr_loop bs data (logical_number data i j) e' (Suc i0) = Inr (extent (slot_at d1 j))"
    if "e' = 4 + 4 * int (containers_before data (Suc i0))" for e'
    by (rule Suc.hyps(1) [OF n le that]) (simp add: Suc.prems(3))
  have big: "int i0 + 1 \<noteq> logical_number data i j"
    using i0 by (simp add: logical_number_def)
  show ?case
  proof (cases "visited_container data i0")
    case True
    with Suc.prems(3) [of i0] lt obtain d0 where
      d0: "bs (unat (start_sector_abs (slot_at data i0))) = Some d0" by auto
    from True have cb: "containers_before data (Suc i0) = containers_before data i0 + 1"
      by (simp add: containers_before_Suc)
    from containers_before_mono [OF le, of data] cb
    have "containers_before data i0 + 1 \<le> containers_before data i" by simp
    then have "ext_loop d0 e (logical_number data i j) 0 = None"
      using Suc.prems(2) by (intro ext_loop_miss) (simp add: logical_number_def)
    with True d0 i0 rec [of "e + 4"] Suc.prems(2) cb show ?thesis
      by (subst mbr_loop_unfold) (simp add: visited_container_def)
  next
    case False
    then have cb: "containers_before data (Suc i0) = containers_before data i0"
      by (simp add: containers_before_Suc)
    with False i0 rec [of e] Suc.prems(2) big show ?thesis
      by (subst mbr_loop_unfold) (auto simp: visited_container_def)
  qed
qed

lemma mbr_loop_miss:
  assumes "e = 4 + 4 * int (containers_before data i0)"
    and "\<And>k. i0 \<le> k \<Longrightarrow> k < 4 \<Longrightarrow> visited_container data k \<Longrightarrow>
           \<exists>d1. bs (unat (start_sector_abs (slot_at data k))) = Some d1 \<and>
             (\<forall>j<4. nb_sectors_abs (slot_at d1 j) = 0 \<or> logical_number data k j \<noteq> pn)"
    and "\<And>k. i0 \<le> k \<Longrightarrow> k < 4 \<Longrightarrow> nb_sectors_abs (slot_at data k) \<noteq> 0 \<Longrightarrow>
           \<not> is_container (slot_at data k) \<Longrightarrow> int k + 1 \<noteq> pn"
  shows "mbr_loop bs data pn e i0 = Inl ENOENT"
  using assms
proof (induction "4 - i0" arbitrary: i0 e)
  case 0
  then show ?case by (subst mbr_loop_unfold) simp
next
  case (Suc n)
  then have i0: "i0 < 4" and n: "n = 4 - Suc i0" by simp_all
  have rec: "mbr_loop bs data pn e' (Suc i0) = Inl ENOENT"
    if "e' = 4 + 4 * int (containers_before data (Suc i0))" for e'
    by (rule Suc.hyps(1) [OF n that]) (simp_all add: Suc.prems(2,3))
  show ?case
  proof (cases "visited_container data i0")
    case True
    with Suc.prems(2) [of i0] i0 obtain d0 where
      d0: "bs (unat (start_sector_abs (slot_at data i0))) = Some d0"
      and no: "\<And>j. j < 4 \<Longrightarrow> nb_sectors_abs (slot_at d0 j) = 0 \<or> logical_number data i0 j \<noteq> pn"
      by auto
    from True have cb: "containers_before data (Suc i0) = containers_before data i0 + 1"
      by (simp add: containers_before_Suc)
    have "ext_loop d0 e pn 0 = None"
    proof (rule ext_loop_miss)
      fix k :: nat assume "k < 4"
      from no [OF this] show "nb_sectors_abs (slot_at d0 k) = 0 \<or> e + int k + 1 \<noteq> pn"
        using Suc.prems(1) by (simp add: logical_number_def)
    qed
    with True d0 i0 rec [of "e + 4"] Suc.prems(1) cb show ?thesis
      by (subst mbr_loop_unfold) (simp add: visited_container_def)
  next
    case False
    then have cb: "containers_before data (Suc i0) = containers_before data i0"
      by (simp add: containers_before_Suc)
    with False i0 rec [of e] Suc.prems(1) Suc.prems(3) [of i0] show ?thesis
      by (subst mbr_loop_unfold) (auto simp: visited_container_def)
  qed
qed

lemma mbr_loop_InrD:
  assumes "mbr_loop bs data pn e i0 = Inr res"
    and "e = 4 + 4 * int (containers_before data i0)"
  shows "(\<exists>i<4. nb_sectors_abs (slot_at data i) \<noteq> 0 \<and> \<not> is_container (slot_at data i) \<and>
            int i + 1 = pn \<and> res = extent (slot_at data i)) \<or>
         (\<exists>i<4. \<exists>d1. \<exists>j<4. visited_container data i \<and>
            bs (unat (start_sector_abs (slot_at data i))) = Some d1 \<and>
            nb_sectors_abs (slot_at d1 j) \<noteq> 0 \<and> logical_number data i j = pn \<and>
            res = extent (slot_at d1 j))"
  using assms
proof (induction "4 - i0" arbitrary: i0 e)
  case 0
  then show ?case by (subst (asm) mbr_loop_unfold) simp
next
  case (Suc n)
  then have i0: "i0 < 4" and n: "n = 4 - Suc i0" by simp_all
  note rec = Suc.hyps(1) [OF n]
  from Suc.prems(2) have same: "e = 4 + 4 * int (containers_before data (Suc i0))"
    if "containers_before data (Suc i0) = containers_before data i0"
    using that by simp
  from Suc.prems(2) have more: "e + 4 = 4 + 4 * int (containers_before data (Suc i0))"
    if "containers_before data (Suc i0) = containers_before data i0 + 1"
    using that by simp
  show ?case
  proof (cases "visited_container data i0")
    case True
    then have cb: "containers_before data (Suc i0) = containers_before data i0 + 1"
      by (simp add: containers_before_Suc)
    from True Suc.prems(1) i0 obtain d0 where
      d0: "bs (unat (start_sector_abs (slot_at data i0))) = Some d0"
      and r: "ext_loop d0 e pn 0 = Some res \<or> mbr_loop bs data pn (e + 4) (Suc i0) = Inr res"
      by (subst (asm) mbr_loop_unfold)
         (auto simp: visited_container_def split: option.splits)
    from r show ?thesis
    proof
      assume "ext_loop d0 e pn 0 = Some res"
      from ext_loop_SomeD [OF this] obtain k where
        "k < 4" "nb_sectors_abs (slot_at d0 k) \<noteq> 0" "pn = e + int k + 1"
        "res = extent (slot_at d0 k)" by blast
      moreover from this(3) Suc.prems(2) have "logical_number data i0 k = pn"
        by (simp add: logical_number_def)
      ultimately show ?thesis using d0 i0 True by blast
    next
      assume "mbr_loop bs data pn (e + 4) (Suc i0) = Inr res"
      then show ?thesis by (rule rec) (rule more [OF cb])
    qed
  next
    case False
    then have cb: "containers_before data (Suc i0) = containers_before data i0"
      by (simp add: containers_before_Suc)
    from False Suc.prems(1) i0 have
      "(nb_sectors_abs (slot_at data i0) \<noteq> 0 \<and> \<not> is_container (slot_at data i0) \<and>
        int i0 + 1 = pn \<and> res = extent (slot_at data i0)) \<or>
       mbr_loop bs data pn e (Suc i0) = Inr res"
      by (subst (asm) mbr_loop_unfold) (auto simp: visited_container_def split: if_splits)
    then show ?thesis
    proof
      assume "nb_sectors_abs (slot_at data i0) \<noteq> 0 \<and> \<not> is_container (slot_at data i0) \<and>
        int i0 + 1 = pn \<and> res = extent (slot_at data i0)"
      with i0 show ?thesis by blast
    next
      assume "mbr_loop bs data pn e (Suc i0) = Inr res"
      then show ?thesis by (rule rec) (rule same [OF cb])
    qed
  qed
qed

section \<open>The control loop and the gate\<close>

lemma state_after_shift:
  "state_after w (Suc n) (w n s) k = state_after w n s (Suc k)"
  by (induction k) simp_all

lemma main_loop_returns:
  assumes "\<And>j. j < k \<Longrightarrow> loop_cond p (state_after w n s j)"
    and "\<not> loop_cond p (state_after w n s k)"
  shows "main_loop w p n s = Some (state_after w n s k)"
  using assms
proof (induction k arbitrary: n s)
  case 0
  then show ?case by (subst main_loop.simps) simp
next
  case (Suc k)
  from Suc.prems(1) [of 0] have c: "loop_cond p (w n s)" by simp
  have "main_loop w p (Suc n) (w n s) = Some (state_after w (Suc n) (w n s) k)"
  proof (rule Suc.IH)
    fix j assume "j < k"
    then have "Suc j < Suc k" by simp
    then show "loop_cond p (state_after w (Suc n) (w n s) j)"
      unfolding state_after_shift by (rule Suc.prems(1))
  next
    show "\<not> loop_cond p (state_after w (Suc n) (w n s) k)"
      unfolding state_after_shift by (rule Suc.prems(2))
  qed
  with c show ?case
    by (subst main_loop.simps) (simp only: state_after_shift Let_def if_True)
qed

lemma main_loop_SomeD:
  assumes "main_loop w p n s = Some r"
  shows "\<exists>k. r = state_after w n s k \<and> \<not> loop_cond p r \<and>
             (\<forall>j<k. loop_cond p (state_after w n s j))"
proof -
  let ?P = "\<lambda>w p n s r. \<exists>k. r = state_after w n s k \<and> \<not> loop_cond p r \<and>
             (\<forall>j<k. loop_cond p (state_after w n s j))"
  show ?thesis
  proof (rule main_loop.raw_induct [where P = ?P, OF _ assms])
    fix f w p n s r
    assume IH: "\<And>w p n s r. f w p n s = Some r \<Longrightarrow> ?P w p n s r"
      and eq: "(let s' = w n s in if loop_cond p s' then f w p (Suc n) s' else Some s') = Some r"
    show "?P w p n s r"
    proof (cases "loop_cond p (w n s)")
      case True
      with eq have "f w p (Suc n) (w n s) = Some r" by (simp add: Let_def)
      from IH [OF this] obtain k where
        k: "r = state_after w (Suc n) (w n s) k" "\<not> loop_cond p r"
           "\<forall>j<k. loop_cond p (state_after w (Suc n) (w n s) j)" by blast
      have "loop_cond p (state_after w n s j)" if "j < Suc k" for j
      proof (cases j)
        case 0 with True show ?thesis by simp
      next
        case (Suc j')
        with that k(3) have "loop_cond p (state_after w (Suc n) (w n s) j')" by simp
        then show ?thesis unfolding Suc state_after_shift .
      qed
      with k(1,2) show ?thesis
        unfolding state_after_shift by blast
    next
      case False
      with eq have "r = w n s" by (simp add: Let_def)
      with False show ?thesis by (intro exI [of _ 0]) simp
    qed
  qed
qed

lemma accept_all_count:
  assumes "\<forall>fd\<in>set fds. 0 \<le> sint fd \<and> nbd_client_new fd"
    and "sint (nb_fds s) + int (length fds) < 2 ^ 31"
  shows "sint (nb_fds (accept_all nbd_client_new fds s)) = sint (nb_fds s) + int (length fds) \<and>
         shared (accept_all nbd_client_new fds s) = shared s"
  using assms
proof (induction fds arbitrary: s)
  case Nil
  then show ?case by (simp add: accept_all_def)
next
  case (Cons fd fds)
  let ?s1 = "nbd_accept nbd_client_new fd s"
  from Cons.prems have ok: "0 \<le> sint fd \<and> nbd_client_new fd" by simp
  from Cons.prems(2) have "sint (nb_fds s) < 2 ^ 31 - 1" by simp
  then have inc: "sint (nb_fds s + 1) = sint (nb_fds s) + 1" by (rule sint_inc)
  from ok inc have s1: "sint (nb_fds ?s1) = sint (nb_fds s) + 1" "shared ?s1 = shared s"
    by (simp_all add: nbd_accept_def)
  have "sint (nb_fds (accept_all nbd_client_new fds ?s1)) = sint (nb_fds ?s1) + int (length fds) \<and>
        shared (accept_all nbd_client_new fds ?s1) = shared ?s1"
    using Cons.prems s1 by (intro Cons.IH) simp_all
  with s1 show ?case by (simp add: accept_all_def)
qed

lemma one_client_never_signals:
  "\<not> sigterm_reported s \<Longrightarrow> \<not> sigterm_reported (state_after one_client n s k)"
  by (induction k)
     (simp_all add: one_client_def nbd_accept_def nbd_client_closed_def Let_def)

lemma upto4: "{0..<4::nat} = {0, 1, 2, 3}"
  by auto

lemma upto2: "{0..<2::nat} = {0, 1}"
  by auto

section \<open>The claims\<close>

subsection \<open>C5: a sector 0 without the boot signature\<close>

text \<open>
  Claim C5. For every 512-byte sector 0 whose last two bytes are not 0x55 followed by
  0xAA, \<^verbatim>\<open>find_partition\<close> fails with \<^verbatim>\<open>-EINVAL\<close> (the specification's InvalidLayout),
  whatever partition number is asked for. Nothing is assumed of the table in bytes 446
  to 509 nor of the other sectors of the image, so the result does not depend on any
  slot; in particular no container sector is read, since a failed read would end the
  process instead.
\<close>

theorem find_partition_bad_signature:
  assumes "bs 0 = Some data" and "length data = 512"
    and "data ! 510 \<noteq> 0x55 \<or> data ! 511 \<noteq> 0xaa"
  shows "find_partition bs partno = Inl EINVAL"
  using assms by (auto simp: find_partition_def)

text \<open>
  Claim C5, at an image whose sector 0 ends in 0x55 0x00 and whose slot 1 is a
  container that cannot be read: partition numbers 1 and 5 both give \<^verbatim>\<open>-EINVAL\<close>.
\<close>

theorem find_partition_bad_signature_witness:
  "find_partition no_signature_image 1 = Inl EINVAL \<and>
   find_partition no_signature_image 5 = Inl EINVAL"
proof -
  have a: "no_signature_image 0 = Some no_signature_sector"
    by (simp add: no_signature_image_def)
  have b: "length no_signature_sector = 512"
    by (simp add: no_signature_sector_def image_defs)
  have c: "no_signature_sector ! 510 \<noteq> 0x55 \<or> no_signature_sector ! 511 \<noteq> 0xaa"
    by (simp add: no_signature_sector_def image_defs nth_append)
  show ?thesis
    using find_partition_bad_signature [where bs = no_signature_image and partno = 1, OF a b c]
      find_partition_bad_signature [where bs = no_signature_image and partno = 5, OF a b c]
    by simp
qed

subsection \<open>C2: primary partitions\<close>

text \<open>
  Claim C2 fails as it is stated: the locator reads the container of every non-empty
  extended slot it passes, and a failed read ends the process. In the image cut off
  after sector 0, partition number 2 maps to a non-empty primary slot of type 0x83,
  and \<^verbatim>\<open>find_partition\<close> ends in the read failure of the container in slot 1.
\<close>

theorem find_partition_primary_counterexample:
  "nb_sectors_abs (slot_at truncated_mbr 1) \<noteq> 0 \<and>
   system (slot_at truncated_mbr 1) = 0x83 \<and>
   find_partition truncated_image 2 = Inl ReadFailure"
  by (simp add: truncated_image_def truncated_mbr_def image_defs table_defs
      find_partition_def mbr_loop.simps ext_loop.simps)

text \<open>
  Claim C2, amended. In an image with a valid boot signature, let partition number
  \<open>i + 1\<close> (in 1..4) map to a non-empty primary slot whose type is neither 0x5 nor 0xF,
  and let the sector of every non-empty extended container in an earlier slot be
  readable. Then \<^verbatim>\<open>find_partition\<close> succeeds with the offset \<open>start_sector_abs * 512\<close>
  and the size \<open>nb_sectors_abs * 512\<close>, exactly (as values of the signed 64-bit
  \<^verbatim>\<open>off_t\<close>).
\<close>

theorem find_partition_primary:
  assumes "bs 0 = Some data" and "data ! 510 = 0x55" and "data ! 511 = 0xaa"
    and "i < 4"
    and "nb_sectors_abs (slot_at data i) \<noteq> 0" and "\<not> is_container (slot_at data i)"
    and "\<forall>k\<in>{0..<i}. visited_container data k \<longrightarrow>
           bs (unat (start_sector_abs (slot_at data k))) \<noteq> None"
  shows "find_partition bs (int i + 1) = Inr (extent (slot_at data i)) \<and>
         sint (fst (extent (slot_at data i))) = uint (start_sector_abs (slot_at data i)) * 512 \<and>
         sint (snd (extent (slot_at data i))) = uint (nb_sectors_abs (slot_at data i)) * 512"
proof -
  have "mbr_loop bs data (int i + 1) 4 0 = Inr (extent (slot_at data i))"
    using assms(4-7) by (intro mbr_loop_primary) simp_all
  with assms(1-3) show ?thesis
    by (simp add: find_partition_def extent_exact)
qed

text \<open>
  Claim C2, the sample of the specification: slot 1 of type 0x83 with start 2048 and
  204800 sectors, the other slots empty, a valid signature; partition 1 is at
  \<open>(1048576, 104857600)\<close>.
\<close>

theorem find_partition_primary_witness:
  "find_partition sample_image 1 = Inr (1048576, 104857600)"
proof -
  have a: "sample_image 0 = Some sample_mbr"
    by (simp add: sample_image_def)
  have b: "sample_mbr ! 510 = 0x55" and c: "sample_mbr ! 511 = 0xaa"
    by (simp_all add: sample_mbr_def image_defs nth_append)
  have d: "nb_sectors_abs (slot_at sample_mbr 0) \<noteq> 0"
    and e: "\<not> is_container (slot_at sample_mbr 0)"
    by (simp_all add: sample_mbr_def image_defs table_defs)
  have f: "\<forall>k\<in>{0..<0}. visited_container sample_mbr k \<longrightarrow>
             sample_image (unat (start_sector_abs (slot_at sample_mbr k))) \<noteq> None"
    by simp
  have g: "extent (slot_at sample_mbr 0) = (1048576, 104857600)"
    by (simp add: sample_mbr_def image_defs table_defs)
  have h: "(0::nat) < 4" by simp
  from find_partition_primary [where bs = sample_image and i = 0, OF a b c h d e f] g
  show ?thesis by simp
qed

subsection \<open>C1: logical partitions\<close>

text \<open>
  Claim C1 fails as it is stated: a sub-slot is numbered by its position in the
  container's table, not by its rank among the populated ones. In the image with two
  containers the first container has an empty sub-slot 1 and a populated sub-slot 2:
  partition number 5 finds nothing, and the first populated sub-slot is number 6.
\<close>

theorem find_partition_logical_counterexample:
  "nb_sectors_abs (slot_at first_ebr 0) = 0 \<and>
   extent (slot_at first_ebr 1) = (56320, 10240) \<and>
   find_partition two_ext_image 5 = Inl ENOENT \<and>
   find_partition two_ext_image 6 = Inr (56320, 10240)"
  by (simp add: two_ext_image_def two_ext_mbr_def first_ebr_def second_ebr_def image_defs
      table_defs find_partition_def mbr_loop.simps ext_loop.simps)

text \<open>
  Claim C1, amended. In an image with a valid boot signature, let primary slot \<open>i\<close> be
  a non-empty extended container (type 0x5 or 0xF) whose sector can be read, as can
  the sectors of the non-empty containers in the slots before it. The counter starts
  at 4 and is advanced by 4 for each container visited, however many sub-slots that
  container populated; so every non-empty sub-slot \<open>j\<close> (0..3) of this container has
  the number \<open>4 + 4 * (containers visited before slot i) + j + 1\<close>, and
  \<^verbatim>\<open>find_partition\<close> returns for that number the pair
  \<open>(start_sector_abs << 9, nb_sectors_abs << 9)\<close> of the sub-slot. Hence number 5 is
  the sub-slot at position 1 of the first container, if it is not empty, and number
  9 is the sub-slot at position 1 of the second container, if it is not empty.
\<close>

theorem find_partition_logical:
  assumes "bs 0 = Some data" and "data ! 510 = 0x55" and "data ! 511 = 0xaa"
    and "i < 4" and "j < 4"
    and "visited_container data i"
    and "bs (unat (start_sector_abs (slot_at data i))) = Some data1"
    and "nb_sectors_abs (slot_at data1 j) \<noteq> 0"
    and "\<forall>k\<in>{0..<i}. visited_container data k \<longrightarrow>
           bs (unat (start_sector_abs (slot_at data k))) \<noteq> None"
  shows "find_partition bs (4 + 4 * int (containers_before data i) + int j + 1) =
           Inr (extent (slot_at data1 j)) \<and>
         (containers_before data i = 0 \<and> j = 0 \<longrightarrow>
            find_partition bs 5 = Inr (extent (slot_at data1 0))) \<and>
         (containers_before data i = 1 \<and> j = 0 \<longrightarrow>
            find_partition bs 9 = Inr (extent (slot_at data1 0)))"
proof -
  have "containers_before data 0 = 0" by (simp add: containers_before_def)
  then have "mbr_loop bs data (logical_number data i j) 4 0 = Inr (extent (slot_at data1 j))"
    using assms(4-9) by (intro mbr_loop_logical) simp_all
  with assms(1-3) have
    "find_partition bs (4 + 4 * int (containers_before data i) + int j + 1) =
       Inr (extent (slot_at data1 j))"
    by (simp add: find_partition_def logical_number_def)
  then show ?thesis by auto
qed

text \<open>
  Claim C1, at the image with two containers: number 9 is the first sub-slot of the
  second container (start 210, 30 sectors), although the first container populated
  one sub-slot only, and number 6 is the second sub-slot of the first container.
\<close>

theorem find_partition_logical_witness:
  "find_partition two_ext_image 9 = Inr (107520, 15360) \<and>
   find_partition two_ext_image 6 = Inr (56320, 10240)"
proof -
  have a: "two_ext_image 0 = Some two_ext_mbr"
    by (simp add: two_ext_image_def)
  have b: "two_ext_mbr ! 510 = 0x55" and c: "two_ext_mbr ! 511 = 0xaa"
    by (simp_all add: two_ext_mbr_def image_defs nth_append)
  have v0: "visited_container two_ext_mbr 0" and v1: "\<not> visited_container two_ext_mbr 1"
    and v2: "visited_container two_ext_mbr 2"
    by (simp_all add: two_ext_mbr_def image_defs table_defs)
  have r0: "two_ext_image (unat (start_sector_abs (slot_at two_ext_mbr 0))) = Some first_ebr"
    and r2: "two_ext_image (unat (start_sector_abs (slot_at two_ext_mbr 2))) = Some second_ebr"
    by (simp_all add: two_ext_image_def two_ext_mbr_def image_defs table_defs)
  have n2: "nb_sectors_abs (slot_at second_ebr 0) \<noteq> 0"
    and n0: "nb_sectors_abs (slot_at first_ebr 1) \<noteq> 0"
    by (simp_all add: first_ebr_def second_ebr_def image_defs table_defs)
  have p2: "\<forall>k\<in>{0..<2}. visited_container two_ext_mbr k \<longrightarrow>
              two_ext_image (unat (start_sector_abs (slot_at two_ext_mbr k))) \<noteq> None"
    using r0 v1 by (simp add: upto2)
  have p0: "\<forall>k\<in>{0..<0}. visited_container two_ext_mbr k \<longrightarrow>
              two_ext_image (unat (start_sector_abs (slot_at two_ext_mbr k))) \<noteq> None"
    by simp
  have c2: "containers_before two_ext_mbr 2 = 1"
    unfolding numeral_2_eq_2 containers_before_Suc containers_before_0
    using v0 v1 by simp
  have c0: "containers_before two_ext_mbr 0 = 0"
    by (rule containers_before_0)
  have e2: "extent (slot_at second_ebr 0) = (107520, 15360)"
    and e0: "extent (slot_at first_ebr 1) = (56320, 10240)"
    by (simp_all add: first_ebr_def second_ebr_def image_defs table_defs)
  have i2: "(2::nat) < 4" and i0: "(0::nat) < 4" and i1: "(1::nat) < 4" by simp_all
  from find_partition_logical [where bs = two_ext_image and i = 2 and j = 0,
      OF a b c i2 i0 v2 r2 n2 p2] c2 e2
  have "find_partition two_ext_image 9 = Inr (107520, 15360)" by simp
  moreover
  from find_partition_logical [where bs = two_ext_image and i = 0 and j = 1,
      OF a b c i0 i1 v0 r0 n0 p0] c0 e0
  have "find_partition two_ext_image 6 = Inr (56320, 10240)" by simp
  ultimately show ?thesis by simp
qed

subsection \<open>C6: partition numbers that no slot carries\<close>

text \<open>
  Claim C6 fails as it is stated: with a container that cannot be read the scan does
  not reach its end. In the image cut off after sector 0 no slot matches partition
  number 3 (its primary slot is empty), and \<^verbatim>\<open>find_partition\<close> ends in the read
  failure of the container in slot 1, not in \<^verbatim>\<open>-ENOENT\<close>.
\<close>

theorem find_partition_not_found_counterexample:
  "truncated_mbr ! 510 = 0x55 \<and> truncated_mbr ! 511 = 0xaa \<and>
   \<not> slot_matches truncated_image truncated_mbr 3 \<and>
   find_partition truncated_image 3 = Inl ReadFailure"
  by (simp add: truncated_image_def truncated_mbr_def image_defs table_defs
      find_partition_def slot_matches_def upto4 mbr_loop.simps ext_loop.simps)

text \<open>
  Claim C6, amended. In an image with a valid boot signature in which the sector of
  every non-empty extended container of the primary table can be read,
  \<^verbatim>\<open>find_partition\<close> returns \<^verbatim>\<open>-ENOENT\<close> (the specification's NotFound) for every
  partition number that no slot matches: numbers whose primary slot is empty or a
  container, numbers whose sub-slot is empty or whose container is absent, and every
  other number.
\<close>

theorem find_partition_not_found:
  assumes "bs 0 = Some data" and "data ! 510 = 0x55" and "data ! 511 = 0xaa"
    and "\<forall>i\<in>{0..<4}. visited_container data i \<longrightarrow>
           bs (unat (start_sector_abs (slot_at data i))) \<noteq> None"
    and "\<not> slot_matches bs data partno"
  shows "find_partition bs partno = Inl ENOENT"
proof -
  have "mbr_loop bs data partno 4 0 = Inl ENOENT"
  proof (rule mbr_loop_miss)
    show "4 = 4 + 4 * int (containers_before data 0)"
      by (simp add: containers_before_def)
  next
    fix k :: nat
    assume k: "k < 4" and v: "visited_container data k"
    with assms(4) obtain d1 where
      d1: "bs (unat (start_sector_abs (slot_at data k))) = Some d1" by auto
    have "nb_sectors_abs (slot_at d1 j) = 0 \<or> logical_number data k j \<noteq> partno"
      if j: "j < 4" for j
    proof (rule ccontr)
      assume "\<not> (nb_sectors_abs (slot_at d1 j) = 0 \<or> logical_number data k j \<noteq> partno)"
      then have hit: "nb_sectors_abs (slot_at d1 j) \<noteq> 0" "logical_number data k j = partno"
        by simp_all
      from j hit have "\<exists>j\<in>{0..<4}. nb_sectors_abs (slot_at d1 j) \<noteq> 0 \<and>
          logical_number data k j = partno"
        by (intro bexI [of _ j]) simp_all
      with v d1 k have "slot_matches bs data partno"
        unfolding slot_matches_def visited_container_def
        by (intro bexI [of _ k]) simp_all
      with assms(5) show False by simp
    qed
    with d1 show "\<exists>d1. bs (unat (start_sector_abs (slot_at data k))) = Some d1 \<and>
        (\<forall>j<4. nb_sectors_abs (slot_at d1 j) = 0 \<or> logical_number data k j \<noteq> partno)"
      by blast
  next
    fix k :: nat
    assume k: "k < 4" and ne: "nb_sectors_abs (slot_at data k) \<noteq> 0"
      and nc: "\<not> is_container (slot_at data k)"
    show "int k + 1 \<noteq> partno"
    proof
      assume "int k + 1 = partno"
      with k ne nc have "slot_matches bs data partno"
        unfolding slot_matches_def by (intro bexI [of _ k]) simp_all
      with assms(5) show False by simp
    qed
  qed
  with assms(1-3) show ?thesis by (simp add: find_partition_def)
qed

text \<open>
  Claim C6, at the sample image (number 2: an empty primary slot; number 5: no
  container) and at the image with two containers (number 5: the sub-slot is empty;
  number 1: the primary slot is a container).
\<close>

theorem find_partition_not_found_witness:
  "find_partition sample_image 2 = Inl ENOENT \<and> find_partition sample_image 5 = Inl ENOENT \<and>
   find_partition two_ext_image 5 = Inl ENOENT \<and> find_partition two_ext_image 1 = Inl ENOENT"
proof -
  have a: "sample_image 0 = Some sample_mbr"
    by (simp add: sample_image_def)
  have b: "sample_mbr ! 510 = 0x55" and c: "sample_mbr ! 511 = 0xaa"
    by (simp_all add: sample_mbr_def image_defs nth_append)
  have d: "\<forall>i\<in>{0..<4}. visited_container sample_mbr i \<longrightarrow>
             sample_image (unat (start_sector_abs (slot_at sample_mbr i))) \<noteq> None"
    by (simp add: upto4 sample_mbr_def image_defs table_defs)
  have e: "\<not> slot_matches sample_image sample_mbr 2"
    and f: "\<not> slot_matches sample_image sample_mbr 5"
    by (simp_all add: slot_matches_def upto4 sample_mbr_def image_defs table_defs)
  have a': "two_ext_image 0 = Some two_ext_mbr"
    by (simp add: two_ext_image_def)
  have b': "two_ext_mbr ! 510 = 0x55" and c': "two_ext_mbr ! 511 = 0xaa"
    by (simp_all add: two_ext_mbr_def image_defs nth_append)
  have d': "\<forall>i\<in>{0..<4}. visited_container two_ext_mbr i \<longrightarrow>
             two_ext_image (unat (start_sector_abs (slot_at two_ext_mbr i))) \<noteq> None"
    by (simp add: upto4 two_ext_image_def two_ext_mbr_def image_defs table_defs)
  have v: "visited_container two_ext_mbr 0" "\<not> visited_container two_ext_mbr 1"
    by (simp_all add: two_ext_mbr_def image_defs table_defs)
  have cb: "containers_before two_ext_mbr 0 = 0" "containers_before two_ext_mbr 2 = 1"
    unfolding numeral_2_eq_2 containers_before_Suc containers_before_0
    using v by simp_all
  have e': "\<not> slot_matches two_ext_image two_ext_mbr 5"
    and f': "\<not> slot_matches two_ext_image two_ext_mbr 1"
    using cb
    by (simp_all add: slot_matches_def logical_number_def upto4 two_ext_image_def
        two_ext_mbr_def first_ebr_def second_ebr_def image_defs table_defs)
  show ?thesis
    using find_partition_not_found [where bs = sample_image and partno = 2, OF a b c d e]
      find_partition_not_found [where bs = sample_image and partno = 5, OF a b c d f]
      find_partition_not_found [where bs = two_ext_image and partno = 5, OF a' b' c' d' e']
      find_partition_not_found [where bs = two_ext_image and partno = 1, OF a' b' c' d' f']
    by simp
qed

subsection \<open>C10: offsets and sizes in 64 bits\<close>

text \<open>
  Claim C10. Whenever \<^verbatim>\<open>find_partition\<close> succeeds, the slot it matched is a
  non-empty primary slot that is no container and has the partition number as its
  position, or a non-empty sub-slot of a visited container that carries the number;
  and, read as signed 64-bit \<^verbatim>\<open>off_t\<close> values, the offset returned is
  \<open>start_sector_abs * 512\<close> and the size is \<open>nb_sectors_abs * 512\<close> of that slot over
  the integers: nothing is cut to 32 bits.
\<close>

theorem find_partition_no_truncation:
  assumes "find_partition bs partno = Inr (off, sz)"
  shows "\<exists>data r. bs 0 = Some data \<and>
           ((\<exists>i<4. r = slot_at data i \<and> \<not> is_container r \<and> int i + 1 = partno) \<or>
            (\<exists>i<4. \<exists>data1. \<exists>j<4. visited_container data i \<and>
               bs (unat (start_sector_abs (slot_at data i))) = Some data1 \<and>
               r = slot_at data1 j \<and> logical_number data i j = partno)) \<and>
           nb_sectors_abs r \<noteq> 0 \<and>
           sint off = uint (start_sector_abs r) * 512 \<and>
           sint sz = uint (nb_sectors_abs r) * 512"
proof -
  from assms obtain data where
    d: "bs 0 = Some data" and m: "mbr_loop bs data partno 4 0 = Inr (off, sz)"
    by (auto simp: find_partition_def split: option.splits if_splits)
  have e: "4 = 4 + 4 * int (containers_before data 0)"
    by (simp add: containers_before_0)
  from mbr_loop_InrD [OF m e] obtain r where
    r: "(\<exists>i<4. r = slot_at data i \<and> \<not> is_container r \<and> int i + 1 = partno) \<or>
        (\<exists>i<4. \<exists>data1. \<exists>j<4. visited_container data i \<and>
           bs (unat (start_sector_abs (slot_at data i))) = Some data1 \<and>
           r = slot_at data1 j \<and> logical_number data i j = partno)"
    and ne: "nb_sectors_abs r \<noteq> 0" and ex: "(off, sz) = extent r"
    by blast
  from ex have "off = fst (extent r)" and "sz = snd (extent r)"
    by (simp_all add: prod_eq_iff)
  then have "sint off = uint (start_sector_abs r) * 512"
    and "sint sz = uint (nb_sectors_abs r) * 512"
    by (simp_all only: extent_exact)
  with d r ne show ?thesis by blast
qed

text \<open>
  Claim C10, at a slot whose start and count are \<open>2^32 - 1\<close>: the offset and the size
  are \<open>(2^32 - 1) * 512 = 2199023255040\<close>, which is above \<open>2^32\<close>.
\<close>

theorem find_partition_no_truncation_witness:
  "find_partition large_image 1 = Inr (2199023255040, 2199023255040) \<and>
   sint (2199023255040 :: 64 word) = (2 ^ 32 - 1) * 512 \<and>
   (\<exists>data (r :: partition_record).
      large_image 0 = Some data \<and> nb_sectors_abs r \<noteq> 0 \<and>
      sint (2199023255040 :: 64 word) = uint (start_sector_abs r) * 512)"
proof -
  have e: "find_partition large_image 1 = Inr (2199023255040, 2199023255040)"
    by (simp add: large_image_def large_mbr_def image_defs table_defs find_partition_def
        mbr_loop.simps ext_loop.simps)
  from find_partition_no_truncation [OF e] have
    "\<exists>data (r :: partition_record).
       large_image 0 = Some data \<and> nb_sectors_abs r \<noteq> 0 \<and>
       sint (2199023255040 :: 64 word) = uint (start_sector_abs r) * 512"
    by blast
  with e show ?thesis by simp
qed

subsection \<open>C9: the ranges of the decoded CHS fields\<close>

text \<open>
  The parts of claim C9 that hold: the two sector fields are below 64 and the start
  cylinder, kept in a \<^verbatim>\<open>uint32_t\<close>, is below 1024.
\<close>

lemma read_partition_sector_ranges:
  "unat (start_sector (read_partition p)) \<le> 63 \<and> unat (end_sector (read_partition p)) \<le> 63"
  by (simp add: read_partition_def sec_range)

lemma read_partition_start_cylinder_range:
  "unat (start_cylinder (read_partition p)) \<le> 1023"
  by (simp add: read_partition_def cyl_range)

text \<open>
  The end cylinder is computed by the same expression, but the field it is stored in
  is a \<^verbatim>\<open>uint8_t\<close>: the two bits taken from the sector byte are lost, and the field
  is the byte \<^verbatim>\<open>p[7]\<close>.
\<close>

lemma read_partition_end_cylinder:
  "end_cylinder (read_partition p) = p ! 7"
  by (simp add: read_partition_def trunc_cyl)

text \<open>
  Claim C9 at a slot of sixteen bytes 0xFF: the start cylinder is 1023, the ten-bit
  value; the end cylinder is 255, where the claim has 1023.
\<close>

theorem read_partition_end_cylinder_truncated:
  "start_cylinder (read_partition all_ones_slot) = 1023 \<and>
   end_cylinder (read_partition all_ones_slot) = 255"
  by (simp add: read_partition_def all_ones_slot_def)

subsection \<open>C3: the close notification\<close>

text \<open>
  Claim C3 fails as it is stated: \<^verbatim>\<open>nbd_client_closed\<close> decrements and has no clamp.
  From a state with no active client a close leaves \<^verbatim>\<open>nb_fds\<close> at -1.
\<close>

theorem nbd_client_closed_counterexample:
  "sint (nb_fds (initial_state 1)) = 0 \<and>
   sint (nb_fds (nbd_client_closed (initial_state 1))) = - 1"
  by (simp add: initial_state_def nbd_client_closed_def)

text \<open>
  Claim C3, amended. The close notification decrements \<^verbatim>\<open>nb_fds\<close> by exactly one
  (above \<open>INT_MIN\<close>), with no clamp and no log, and changes nothing else; so
  \<open>0 \<le> nb_fds\<close> is kept by a close when \<open>nb_fds \<ge> 1\<close> before it. It is also kept by
  every accept attempt (below \<open>INT_MAX\<close>) and by the signal handler.
\<close>

theorem nbd_client_closed_decrements:
  "(- (2 ^ 31) < sint (nb_fds s) \<longrightarrow>
      sint (nb_fds (nbd_client_closed s)) = sint (nb_fds s) - 1) \<and>
   (0 < sint (nb_fds s) \<longrightarrow> 0 \<le> sint (nb_fds (nbd_client_closed s))) \<and>
   shared (nbd_client_closed s) = shared s \<and>
   nbd_started (nbd_client_closed s) = nbd_started s \<and>
   sigterm_reported (nbd_client_closed s) = sigterm_reported s \<and>
   (0 \<le> sint (nb_fds s) \<and> sint (nb_fds s) < 2 ^ 31 - 1 \<longrightarrow>
      0 \<le> sint (nb_fds (nbd_accept nbd_client_new fd s))) \<and>
   nb_fds (termsig_handler s) = nb_fds s"
proof -
  have dec: "sint (nb_fds s - 1) = sint (nb_fds s) - 1" if "- (2 ^ 31) < sint (nb_fds s)"
    using that by (rule sint_dec)
  have inc: "sint (nb_fds s + 1) = sint (nb_fds s) + 1" if "sint (nb_fds s) < 2 ^ 31 - 1"
    using that by (rule sint_inc)
  have pos: "0 \<le> sint (nb_fds s - 1)" if "0 < sint (nb_fds s)"
  proof -
    from that have "- (2 ^ 31) < sint (nb_fds s)" by simp
    from dec [OF this] that show ?thesis by simp
  qed
  show ?thesis
    using dec inc pos
    by (simp add: nbd_client_closed_def nbd_accept_def termsig_handler_def Let_def)
qed

text \<open>
  Claim C3, amended, at a state with one active client: the close brings
  \<^verbatim>\<open>nb_fds\<close> from 1 to 0.
\<close>

theorem nbd_client_closed_decrements_witness:
  "sint (nb_fds (nbd_client_closed (nbd_accept (\<lambda>fd. True) 5 (initial_state 1)))) = 0"
proof -
  let ?s = "nbd_accept (\<lambda>fd. True) 5 (initial_state 1)"
  have one: "sint (nb_fds ?s) = 1"
    by (simp add: nbd_accept_def initial_state_def)
  then have "- (2 ^ 31) < sint (nb_fds ?s)" by simp
  with nbd_client_closed_decrements [of ?s] one show ?thesis by simp
qed

subsection \<open>C8: what an accept attempt changes\<close>

text \<open>
  Claim C8 fails as it is stated: \<^verbatim>\<open>nbd_started = true\<close> is executed before the
  result of \<^verbatim>\<open>accept()\<close> is looked at. After a failed first attempt
  (\<^verbatim>\<open>accept()\<close> returned -1) \<^verbatim>\<open>nbd_started\<close> is set, \<^verbatim>\<open>nb_fds\<close> is still 0, and
  the condition of the control loop of a non-persistent server is false: the server
  ends.
\<close>

theorem nbd_accept_failed_counterexample:
  "nbd_started (initial_state 1) = False \<and>
   nbd_started (nbd_accept (\<lambda>fd. True) (- 1) (initial_state 1)) = True \<and>
   nb_fds (nbd_accept (\<lambda>fd. True) (- 1) (initial_state 1)) = 0 \<and>
   loop_cond 0 (initial_state 1) = True \<and>
   loop_cond 0 (nbd_accept (\<lambda>fd. True) (- 1) (initial_state 1)) = False"
  by (simp add: initial_state_def nbd_accept_def loop_cond_def)

text \<open>
  Claim C8, amended. Every accept attempt, successful or failed, sets
  \<^verbatim>\<open>nbd_started\<close>. \<^verbatim>\<open>nb_fds\<close> is incremented exactly when the attempt succeeds
  (\<^verbatim>\<open>accept()\<close> returned a descriptor \<open>\<ge> 0\<close> and \<^verbatim>\<open>nbd_client_new\<close> returned a
  client); a failed attempt leaves \<^verbatim>\<open>nb_fds\<close> as it was. No attempt changes
  \<^verbatim>\<open>shared\<close> or \<^verbatim>\<open>sigterm_reported\<close>. As \<^verbatim>\<open>nbd_started\<close> is set either way, a
  failed attempt while no client is active makes the condition of the control loop of
  a non-persistent server false.
\<close>

theorem nbd_accept_effect:
  "nbd_started (nbd_accept nbd_client_new fd s) \<and>
   nb_fds (nbd_accept nbd_client_new fd s) =
     (if 0 \<le> sint fd \<and> nbd_client_new fd then nb_fds s + 1 else nb_fds s) \<and>
   shared (nbd_accept nbd_client_new fd s) = shared s \<and>
   sigterm_reported (nbd_accept nbd_client_new fd s) = sigterm_reported s \<and>
   (\<not> (0 \<le> sint fd \<and> nbd_client_new fd) \<and> sint (nb_fds s) \<le> 0 \<longrightarrow>
      \<not> loop_cond 0 (nbd_accept nbd_client_new fd s))"
  by (simp add: nbd_accept_def loop_cond_def Let_def)

text \<open>
  Claim C8, amended, at the initial state: a successful attempt counts one client; a
  failed one counts none and sets \<^verbatim>\<open>nbd_started\<close> all the same.
\<close>

theorem nbd_accept_effect_witness:
  "nb_fds (nbd_accept (\<lambda>fd. True) 5 (initial_state 1)) = 1 \<and>
   nb_fds (nbd_accept (\<lambda>fd. True) (- 1) (initial_state 1)) = 0 \<and>
   nbd_started (nbd_accept (\<lambda>fd. True) (- 1) (initial_state 1)) \<and>
   \<not> loop_cond 0 (nbd_accept (\<lambda>fd. True) (- 1) (initial_state 1))"
  using nbd_accept_effect [of "\<lambda>fd. True" 5 "initial_state 1"]
    nbd_accept_effect [of "\<lambda>fd. True" "- 1" "initial_state 1"]
  by (simp add: initial_state_def)

subsection \<open>C7: the admission gate\<close>

text \<open>
  Claim C7. \<^verbatim>\<open>nbd_can_accept\<close> holds exactly when \<open>nb_fds < shared\<close>, on the state as
  it is when the function is called. Starting with no client and a limit of \<open>N \<ge> 1\<close>:
  the gate is open before each of \<open>N\<close> successful accepts; after the \<open>N\<close> accepts, with
  no close, it is shut; after one close it is open again.
\<close>

theorem nbd_can_accept_gate:
  "(nbd_can_accept s \<longleftrightarrow> sint (nb_fds s) < sint (shared s)) \<and>
   (nb_fds s = 0 \<and> fds \<noteq> [] \<and> sint (shared s) = int (length fds) \<and>
    (\<forall>fd\<in>set fds. 0 \<le> sint fd \<and> nbd_client_new fd) \<longrightarrow>
      (\<forall>k<length fds. nbd_can_accept (accept_all nbd_client_new (take k fds) s)) \<and>
      \<not> nbd_can_accept (accept_all nbd_client_new fds s) \<and>
      nbd_can_accept (nbd_client_closed (accept_all nbd_client_new fds s)))"
proof (intro conjI impI)
  show "nbd_can_accept s \<longleftrightarrow> sint (nb_fds s) < sint (shared s)"
    by (simp add: nbd_can_accept_def)
next
  assume h: "nb_fds s = 0 \<and> fds \<noteq> [] \<and> sint (shared s) = int (length fds) \<and>
    (\<forall>fd\<in>set fds. 0 \<le> sint fd \<and> nbd_client_new fd)"
  then have z: "sint (nb_fds s) = 0" and ne: "fds \<noteq> []"
    and lim: "sint (shared s) = int (length fds)"
    and ok: "\<forall>fd\<in>set fds. 0 \<le> sint fd \<and> nbd_client_new fd"
    by simp_all
  have "sint (shared s) < 2 ^ 31" using sint_lt [of "shared s"] by simp
  with lim have bound: "int (length fds) < 2 ^ 31" by simp
  have count: "sint (nb_fds (accept_all nbd_client_new (take k fds) s)) = int k \<and>
      shared (accept_all nbd_client_new (take k fds) s) = shared s" if "k \<le> length fds" for k
  proof -
    have "\<forall>fd\<in>set (take k fds). 0 \<le> sint fd \<and> nbd_client_new fd"
      using ok by (auto dest: in_set_takeD)
    moreover have "sint (nb_fds s) + int (length (take k fds)) < 2 ^ 31"
      using z bound that by simp
    ultimately show ?thesis
      using accept_all_count [of "take k fds" nbd_client_new s] z that by simp
  qed
  show "\<forall>k<length fds. nbd_can_accept (accept_all nbd_client_new (take k fds) s)"
    using count lim by (simp add: nbd_can_accept_def)
  from count [of "length fds"] have full:
    "sint (nb_fds (accept_all nbd_client_new fds s)) = int (length fds)"
    "shared (accept_all nbd_client_new fds s) = shared s"
    by simp_all
  with lim show "\<not> nbd_can_accept (accept_all nbd_client_new fds s)"
    by (simp add: nbd_can_accept_def)
  have "- (2 ^ 31) < sint (nb_fds (accept_all nbd_client_new fds s))"
    using full(1) by simp
  then have "sint (nb_fds (accept_all nbd_client_new fds s) - 1) = int (length fds) - 1"
    using full(1) by (simp add: sint_dec)
  with full(2) lim show "nbd_can_accept (nbd_client_closed (accept_all nbd_client_new fds s))"
    by (simp add: nbd_can_accept_def nbd_client_closed_def)
qed

text \<open>
  Claim C7, for a limit of two clients and the descriptors 5 and 6: the gate is shut
  after the two accepts and open after a close.
\<close>

theorem nbd_can_accept_gate_witness:
  "\<not> nbd_can_accept (accept_all (\<lambda>fd. True) [5, 6] (initial_state 2)) \<and>
   nbd_can_accept (nbd_client_closed (accept_all (\<lambda>fd. True) [5, 6] (initial_state 2)))"
proof -
  have "nb_fds (initial_state 2) = 0 \<and> [5, 6 :: 32 word] \<noteq> [] \<and>
      sint (shared (initial_state 2)) = int (length [5, 6 :: 32 word]) \<and>
      (\<forall>fd\<in>set [5, 6 :: 32 word]. 0 \<le> sint fd \<and> (\<lambda>fd. True) fd)"
    by (simp add: initial_state_def)
  with nbd_can_accept_gate [of "initial_state 2" "[5, 6]" "\<lambda>fd. True"]
  show ?thesis by blast
qed

subsection \<open>C4: when the control loop goes on\<close>

text \<open>
  Claim C4. The loop waits again exactly while no termination was requested and the
  server is persistent, or has not started, or has an active client. It returns in
  the first iteration that ends in a state where this condition is false, and returns
  nowhere else. So a termination request ends the loop in the first iteration that
  ends with \<^verbatim>\<open>sigterm_reported\<close> set, persistent or not. For a non-persistent server
  the loop also returns in the first iteration that ends with \<^verbatim>\<open>nbd_started\<close> set
  and \<^verbatim>\<open>nb_fds\<close> back at 0, with or without a signal. For a persistent server the
  loop returns only in a state where termination was requested, and never returns
  when no iteration ends in such a state, whatever \<^verbatim>\<open>nb_fds\<close> is.
\<close>

theorem main_loop_continuation:
  "(loop_cond persistent s \<longleftrightarrow>
      \<not> sigterm_reported s \<and> (persistent \<noteq> 0 \<or> \<not> nbd_started s \<or> 0 < sint (nb_fds s))) \<and>
   (persistent = 0 \<and> (\<forall>j<k. loop_cond persistent (state_after w n s j)) \<and>
    nbd_started (state_after w n s k) \<and> nb_fds (state_after w n s k) = 0 \<longrightarrow>
      main_loop w persistent n s = Some (state_after w n s k)) \<and>
   (persistent \<noteq> 0 \<and> main_loop w persistent n s = Some r \<longrightarrow> sigterm_reported r) \<and>
   (persistent \<noteq> 0 \<and> (\<forall>k. \<not> sigterm_reported (state_after w n s k)) \<longrightarrow>
      main_loop w persistent n s = None) \<and>
   ((\<forall>j<k. loop_cond persistent (state_after w n s j)) \<and>
    \<not> loop_cond persistent (state_after w n s k) \<longrightarrow>
      main_loop w persistent n s = Some (state_after w n s k)) \<and>
   ((\<forall>j<k. loop_cond persistent (state_after w n s j)) \<and>
    sigterm_reported (state_after w n s k) \<longrightarrow>
      main_loop w persistent n s = Some (state_after w n s k)) \<and>
   (main_loop w persistent n s = Some r \<longrightarrow>
      (\<exists>m. r = state_after w n s m \<and> \<not> loop_cond persistent r \<and>
         (\<forall>j<m. loop_cond persistent (state_after w n s j))))"
proof (intro conjI impI)
  show "loop_cond persistent s \<longleftrightarrow>
      \<not> sigterm_reported s \<and> (persistent \<noteq> 0 \<or> \<not> nbd_started s \<or> 0 < sint (nb_fds s))"
    by (simp add: loop_cond_def)
next
  assume h: "persistent = 0 \<and> (\<forall>j<k. loop_cond persistent (state_after w n s j)) \<and>
    nbd_started (state_after w n s k) \<and> nb_fds (state_after w n s k) = 0"
  then have go: "\<And>j. j < k \<Longrightarrow> loop_cond persistent (state_after w n s j)"
    and stop: "\<not> loop_cond persistent (state_after w n s k)"
    by (simp_all add: loop_cond_def)
  show "main_loop w persistent n s = Some (state_after w n s k)"
    by (rule main_loop_returns [OF go stop])
next
  assume h: "persistent \<noteq> 0 \<and> main_loop w persistent n s = Some r"
  then have "\<not> loop_cond persistent r"
    using main_loop_SomeD [of w persistent n s r] by blast
  with h show "sigterm_reported r"
    by (simp add: loop_cond_def)
next
  assume h: "persistent \<noteq> 0 \<and> (\<forall>k. \<not> sigterm_reported (state_after w n s k))"
  show "main_loop w persistent n s = None"
  proof (rule ccontr)
    assume "main_loop w persistent n s \<noteq> None"
    then obtain r where r: "main_loop w persistent n s = Some r" by auto
    from main_loop_SomeD [OF r] obtain k where
      "r = state_after w n s k" "\<not> loop_cond persistent r" by blast
    with h show False by (simp add: loop_cond_def)
  qed
next
  assume "(\<forall>j<k. loop_cond persistent (state_after w n s j)) \<and>
    \<not> loop_cond persistent (state_after w n s k)"
  then have go: "\<And>j. j < k \<Longrightarrow> loop_cond persistent (state_after w n s j)"
    and stop: "\<not> loop_cond persistent (state_after w n s k)"
    by simp_all
  show "main_loop w persistent n s = Some (state_after w n s k)"
    by (rule main_loop_returns [OF go stop])
next
  assume "(\<forall>j<k. loop_cond persistent (state_after w n s j)) \<and>
    sigterm_reported (state_after w n s k)"
  then have go: "\<And>j. j < k \<Longrightarrow> loop_cond persistent (state_after w n s j)"
    and stop: "\<not> loop_cond persistent (state_after w n s k)"
    by (simp_all add: loop_cond_def)
  show "main_loop w persistent n s = Some (state_after w n s k)"
    by (rule main_loop_returns [OF go stop])
next
  assume "main_loop w persistent n s = Some r"
  then show "\<exists>m. r = state_after w n s m \<and> \<not> loop_cond persistent r \<and>
      (\<forall>j<m. loop_cond persistent (state_after w n s j))"
    by (rule main_loop_SomeD)
qed

text \<open>
  Claim C4, for a client that is accepted in iteration 0 and closes in iteration 1. A
  non-persistent server returns after iteration 1 with no signal; a persistent one
  waits forever; a persistent one that is signalled in iteration 2 returns then, in
  a state with \<^verbatim>\<open>sigterm_reported\<close> set; and a non-persistent one that is signalled
  in iteration 0, before any client, returns at once.
\<close>

theorem main_loop_continuation_witness:
  "main_loop one_client 0 0 (initial_state 1) =
     Some \<lparr>sigterm_reported = False, nbd_started = True, shared = 1, nb_fds = 0\<rparr> \<and>
   main_loop one_client 1 0 (initial_state 1) = None \<and>
   main_loop one_client_then_signal 1 0 (initial_state 1) =
     Some \<lparr>sigterm_reported = True, nbd_started = True, shared = 1, nb_fds = 0\<rparr> \<and>
   sigterm_reported \<lparr>sigterm_reported = True, nbd_started = True, shared = 1, nb_fds = 0\<rparr> \<and>
   main_loop (\<lambda>n. termsig_handler) 0 0 (initial_state 1) =
     Some \<lparr>sigterm_reported = True, nbd_started = False, shared = 1, nb_fds = 0\<rparr>"
proof -
  let ?s0 = "initial_state 1"
  let ?end = "\<lparr>sigterm_reported = True, nbd_started = True, shared = 1, nb_fds = 0 :: 32 word\<rparr>"
  have a1: "state_after one_client 0 ?s0 (Suc 0) =
      \<lparr>sigterm_reported = False, nbd_started = True, shared = 1, nb_fds = 0\<rparr>"
    by (simp add: one_client_def nbd_accept_def nbd_client_closed_def initial_state_def)
  have a0: "\<forall>j<Suc 0. loop_cond 0 (state_after one_client 0 ?s0 j)"
    by (simp add: one_client_def nbd_accept_def initial_state_def loop_cond_def)
  have a2: "nbd_started (state_after one_client 0 ?s0 (Suc 0))"
    and a3: "nb_fds (state_after one_client 0 ?s0 (Suc 0)) = 0"
    by (simp_all only: a1) simp_all
  have "(0 :: 32 word) = 0 \<and> (\<forall>j<Suc 0. loop_cond 0 (state_after one_client 0 ?s0 j)) \<and>
      nbd_started (state_after one_client 0 ?s0 (Suc 0)) \<and>
      nb_fds (state_after one_client 0 ?s0 (Suc 0)) = 0"
    by (intro conjI refl a0 a2 a3)
  then have "main_loop one_client 0 0 ?s0 = Some (state_after one_client 0 ?s0 (Suc 0))"
    by (rule main_loop_continuation
        [where persistent = 0 and s = ?s0 and k = "Suc 0" and w = one_client and n = 0,
          THEN conjunct2, THEN conjunct1, THEN mp])
  then have first: "main_loop one_client 0 0 ?s0 =
      Some \<lparr>sigterm_reported = False, nbd_started = True, shared = 1, nb_fds = 0\<rparr>"
    by (simp only: a1)
  have "(1 :: 32 word) \<noteq> 0 \<and> (\<forall>k. \<not> sigterm_reported (state_after one_client 0 ?s0 k))"
    by (simp add: one_client_never_signals initial_state_def)
  then have second: "main_loop one_client 1 0 ?s0 = None"
    by (rule main_loop_continuation
        [where persistent = 1 and s = ?s0 and w = one_client and n = 0,
          THEN conjunct2, THEN conjunct2, THEN conjunct2, THEN conjunct1, THEN mp])
  have b2: "state_after one_client_then_signal 0 ?s0 (Suc (Suc 0)) = ?end"
    by (simp add: one_client_then_signal_def nbd_accept_def nbd_client_closed_def
        termsig_handler_def initial_state_def)
  have go: "\<forall>j<Suc (Suc 0). loop_cond 1 (state_after one_client_then_signal 0 ?s0 j)"
    by (simp add: less_Suc_eq one_client_then_signal_def nbd_accept_def nbd_client_closed_def
        initial_state_def loop_cond_def)
  have sig: "sigterm_reported (state_after one_client_then_signal 0 ?s0 (Suc (Suc 0)))"
    by (simp only: b2) simp
  from go sig have "(\<forall>j<Suc (Suc 0). loop_cond 1 (state_after one_client_then_signal 0 ?s0 j)) \<and>
      sigterm_reported (state_after one_client_then_signal 0 ?s0 (Suc (Suc 0)))"
    by (rule conjI)
  then have "main_loop one_client_then_signal 1 0 ?s0 =
      Some (state_after one_client_then_signal 0 ?s0 (Suc (Suc 0)))"
    by (rule main_loop_continuation
        [where persistent = 1 and s = ?s0 and k = "Suc (Suc 0)" and w = one_client_then_signal
           and n = 0,
          THEN conjunct2, THEN conjunct2, THEN conjunct2, THEN conjunct2, THEN conjunct2,
          THEN conjunct1, THEN mp])
  then have third: "main_loop one_client_then_signal 1 0 ?s0 = Some ?end"
    by (simp only: b2)
  then have "(1 :: 32 word) \<noteq> 0 \<and> main_loop one_client_then_signal 1 0 ?s0 = Some ?end"
    by simp
  then have fourth: "sigterm_reported ?end"
    by (rule main_loop_continuation
        [where persistent = 1 and s = ?s0 and w = one_client_then_signal and n = 0 and r = ?end,
          THEN conjunct2, THEN conjunct2, THEN conjunct1, THEN mp])
  have c0: "state_after (\<lambda>n. termsig_handler) 0 ?s0 0 =
      \<lparr>sigterm_reported = True, nbd_started = False, shared = 1, nb_fds = 0\<rparr>"
    by (simp add: termsig_handler_def initial_state_def)
  have "(\<forall>j<0. loop_cond 0 (state_after (\<lambda>n. termsig_handler) 0 ?s0 j)) \<and>
      sigterm_reported (state_after (\<lambda>n. termsig_handler) 0 ?s0 0)"
    by (simp add: termsig_handler_def initial_state_def)
  then have "main_loop (\<lambda>n. termsig_handler) 0 0 ?s0 =
      Some (state_after (\<lambda>n. termsig_handler) 0 ?s0 0)"
    by (rule main_loop_continuation
        [where persistent = 0 and s = ?s0 and k = 0 and w = "\<lambda>n. termsig_handler" and n = 0,
          THEN conjunct2, THEN conjunct2, THEN conjunct2, THEN conjunct2, THEN conjunct2,
          THEN conjunct1, THEN mp])
  then have fifth: "main_loop (\<lambda>n. termsig_handler) 0 0 ?s0 =
      Some \<lparr>sigterm_reported = True, nbd_started = False, shared = 1, nb_fds = 0\<rparr>"
    by (simp only: c0)
  from first second third fourth fifth show ?thesis
    by (intro conjI)
qed

end
